theory Spec2Isabelle
  imports Main "HOL-Library.AList"
begin

section \<open>Data model\<close>

text \<open>
  The program (\<^verbatim>\<open>clean.py\<close>) reconciles two client tables, HMIS (tag \<^verbatim>\<open>'h'\<close>) and
  Connecting Point (tag \<^verbatim>\<open>'c'\<close>).  A table is a list of rows in table order.  A cell that
  pandas may hold as NaN / NaT is an \<open>option\<close> (\<open>None\<close> is the missing value); dates are
  kept as integer timestamps.  Identifiers are exact integers: the rounding of identifiers
  too large for a float is not modelled.

  A raw identifier may be missing in a record table too: \<^verbatim>\<open>get_raw_cp\<close> joins the clients
  onto the cases with \<^verbatim>\<open>how='left'\<close>, so a case without a client is a row without
  \<^verbatim>\<open>Clientid\<close>.  As a Python value a missing identifier is a NaN object, equal to nothing
  but itself; \<open>NaN i\<close> is the object read from row \<open>i\<close> of a column.  So two rows without
  an identifier give two different graph nodes and two different dictionary keys.
\<close>

datatype ident = Val int | NaN nat

type_synonym node = "string \<times> ident"

record hmis_row =
  Subject_Unique_Identifier :: "int option"
  Family_Site_Identifier :: "int option"
  Program_Start_Date :: "int option"
  DOB :: "int option"

record cp_row =
  Clientid :: "int option"
  Caseid :: "int option"
  age :: "int option"

text \<open>The three evidence files read inside \<^verbatim>\<open>get_client_family_ids\<close>:
  \<^verbatim>\<open>hmis_client_duplicates_link_plus.csv\<close>, \<^verbatim>\<open>cp_client_duplicates_link_plus.csv\<close> and
  \<^verbatim>\<open>cp_hmis_match_results.csv\<close>.  The match file is read whole, so its row also carries
  the cells of whatever further columns the file has.\<close>

record hmis_dup_row =
  hd_Set_ID :: "int option"
  hd_Subject_Unique_Identifier :: "int option"

record cp_dup_row =
  cd_Set_ID :: "int option"
  cd_Clientid :: "int option"

record match_row =
  m_clientid :: "int option"
  m_Subject_Unique_Identifier :: "int option"
  m_other_columns :: "int option list"

datatype error = PyException

section \<open>The graph library (networkx) as used by the program\<close>

text \<open>
  \<^verbatim>\<open>nx.Graph()\<close> is kept as its node list (in insertion order) and its edge list.
  \<^verbatim>\<open>add_edge\<close> inserts both endpoints as nodes when they are new, as networkx does.
  \<^verbatim>\<open>G.copy()\<close> is the graph itself: values are not mutated here.
\<close>

record 'v graph =
  nodes :: "'v list"
  edges :: "('v \<times> 'v) list"

definition Graph :: "'v graph" where
  "Graph = \<lparr>nodes = [], edges = []\<rparr>"

definition add_node :: "'v \<Rightarrow> 'v graph \<Rightarrow> 'v graph" where
  "add_node n G = (if n \<in> set (nodes G) then G else G\<lparr>nodes := nodes G @ [n]\<rparr>)"

definition add_nodes_from :: "'v list \<Rightarrow> 'v graph \<Rightarrow> 'v graph" where
  "add_nodes_from ns G = fold add_node ns G"

definition add_edge :: "'v \<times> 'v \<Rightarrow> 'v graph \<Rightarrow> 'v graph" where
  "add_edge e G =
     (let G1 = add_node (fst e) G; G2 = add_node (snd e) G1
      in G2\<lparr>edges := edges G2 @ [e]\<rparr>)"

definition add_edges_from :: "('v \<times> 'v) list \<Rightarrow> 'v graph \<Rightarrow> 'v graph" where
  "add_edges_from es G = fold add_edge es G"

text \<open>\<^verbatim>\<open>G.adj[v]\<close>: the neighbours of \<open>v\<close>; the graph is undirected.\<close>

definition adj :: "'v graph \<Rightarrow> 'v \<Rightarrow> 'v list" where
  "adj G v = map snd (filter (\<lambda>e. fst e = v) (edges G)) @
             map fst (filter (\<lambda>e. snd e = v) (edges G))"

definition endpoints :: "'v graph \<Rightarrow> 'v set" where
  "endpoints G = fst ` set (edges G) \<union> snd ` set (edges G)"

definition bfs_rel :: "(('v graph \<times> 'v list \<times> 'v list) \<times> ('v graph \<times> 'v list \<times> 'v list)) set" where
  "bfs_rel = inv_image (less_than <*lex*> less_than)
     (\<lambda>(G, seen, ws). (card ((endpoints G \<union> set ws) - set seen), length ws))"

text \<open>The breadth-first search behind \<^verbatim>\<open>nx.connected_components\<close>: the nodes seen so
  far and a work list of nodes still to visit; a node taken from the work list that was
  not seen yet is marked and its neighbours are queued.  It ends with the set of nodes
  reachable from the start node.\<close>

function plain_bfs :: "'v graph \<Rightarrow> 'v list \<Rightarrow> 'v list \<Rightarrow> 'v list" where
  "plain_bfs G seen [] = seen"
| "plain_bfs G seen (v # ws) =
     (if v \<in> set seen then plain_bfs G seen ws
      else plain_bfs G (seen @ [v]) (ws @ adj G v))"
  by pat_completeness auto

lemma adj_endpoints: "set (adj G v) \<subseteq> endpoints G"
  by (auto simp: adj_def endpoints_def)

lemma wf_bfs_rel: "wf bfs_rel"
  unfolding bfs_rel_def by (intro wf_inv_image wf_lex_prod wf_less_than)

lemma bfs_rel_skip:
  assumes "v \<in> set seen"
  shows "((G, seen, ws), (G, seen, v # ws)) \<in> bfs_rel"
proof -
  from assms have "(endpoints G \<union> set ws) - set seen = (endpoints G \<union> set (v # ws)) - set seen"
    by auto
  then show ?thesis by (simp add: bfs_rel_def)
qed

lemma bfs_rel_visit:
  assumes v: "v \<notin> set seen"
  shows "((G, seen @ [v], ws @ adj G v), (G, seen, v # ws)) \<in> bfs_rel"
proof -
  have fin: "finite ((endpoints G \<union> set (v # ws)) - set seen)"
    by (simp add: endpoints_def)
  have "(endpoints G \<union> set (ws @ adj G v)) - set (seen @ [v])
          \<subset> (endpoints G \<union> set (v # ws)) - set seen"
    using v adj_endpoints [of G v] by auto
  then have "card ((endpoints G \<union> set (ws @ adj G v)) - set (seen @ [v]))
          < card ((endpoints G \<union> set (v # ws)) - set seen)"
    using fin by (simp add: psubset_card_mono)
  then show ?thesis by (simp add: bfs_rel_def)
qed

termination plain_bfs
  by (relation bfs_rel) (simp_all add: wf_bfs_rel bfs_rel_skip bfs_rel_visit)

text \<open>\<^verbatim>\<open>nx.connected_components(G)\<close>: for every node of \<open>G\<close> in order that is not in a
  component already produced, its search closure is the next component.\<close>

fun components_from :: "'v graph \<Rightarrow> 'v list \<Rightarrow> 'v list \<Rightarrow> 'v list list" where
  "components_from G seen [] = []"
| "components_from G seen (v # vs) =
     (if v \<in> set seen then components_from G seen vs
      else (let c = plain_bfs G [] [v] in c # components_from G (seen @ c) vs))"

definition connected_components :: "'v graph \<Rightarrow> 'v list list" where
  "connected_components G = components_from G [] (nodes G)"

text \<open>Connectivity: two nodes are connected when a path of edges, walked in either
  direction, leads from one to the other.  A graph built by the operations above has its
  edge endpoints among its nodes.\<close>

definition adj_rel :: "'v graph \<Rightarrow> ('v \<times> 'v) set" where
  "adj_rel G = {(u, v). (u, v) \<in> set (edges G) \<or> (v, u) \<in> set (edges G)}"

definition connected :: "'v graph \<Rightarrow> 'v \<Rightarrow> 'v \<Rightarrow> bool" where
  "connected G u v \<longleftrightarrow> (u, v) \<in> (adj_rel G)\<^sup>*"

definition wf_graph :: "'v graph \<Rightarrow> bool" where
  "wf_graph G \<longleftrightarrow> distinct (nodes G) \<and> endpoints G \<subseteq> set (nodes G)"

definition closed :: "'v graph \<Rightarrow> 'v set \<Rightarrow> bool" where
  "closed G S \<longleftrightarrow> (\<forall>x \<in> S. \<forall>y. connected G x y \<longrightarrow> y \<in> S)"

section \<open>The table library (pandas) as used by the program\<close>

text \<open>\<^verbatim>\<open>dropna()\<close> drops every row with a missing cell.\<close>

definition dropna :: "'a option list list \<Rightarrow> 'a list list" where
  "dropna rows = map (map the) (filter (\<lambda>cells. None \<notin> set cells) rows)"

text \<open>\<^verbatim>\<open>drop_duplicates()\<close> keeps the first of equal rows, in table order
  (\<open>remdups\<close> keeps the last, hence the two reversals).\<close>

definition drop_duplicates :: "'a list \<Rightarrow> 'a list" where
  "drop_duplicates rows = rev (remdups (rev rows))"

text \<open>\<^verbatim>\<open>column.values\<close>: the cells of a column as Python values, a missing cell of row
  \<open>i\<close> as the NaN object \<open>NaN i\<close>.\<close>

definition column_values :: "int option list \<Rightarrow> ident list" where
  "column_values cells = map (\<lambda>(i, c). case c of Some v \<Rightarrow> Val v | None \<Rightarrow> NaN i) (enumerate 0 cells)"

text \<open>The key comparison of a pandas join: equal identifiers match, and a missing key
  matches every missing key.\<close>

fun key_matches :: "int option \<Rightarrow> ident \<Rightarrow> bool" where
  "key_matches (Some v) (Val w) = (v = w)"
| "key_matches None (NaN i) = True"
| "key_matches (Some v) (NaN i) = False"
| "key_matches None (Val w) = False"

text \<open>\<^verbatim>\<open>left.merge(right, left_on=..., right_index=True, how='left')\<close> with a one-column
  \<open>right\<close>, held as its (index, value) pairs: every left row, in order, once for each right
  entry whose index matches its key, and once with a missing value when there is none.\<close>

definition merge_left ::
  "'r list \<Rightarrow> ('r \<Rightarrow> int option) \<Rightarrow> (ident \<times> nat) list \<Rightarrow> ('r \<times> nat option) list" where
  "merge_left left left_on right =
     concat (map (\<lambda>r. case filter (\<lambda>kv. key_matches (left_on r) (fst kv)) right of
                         [] \<Rightarrow> [(r, None)]
                       | ms \<Rightarrow> map (\<lambda>kv. (r, Some (snd kv))) ms) left)"

section \<open>\<^verbatim>\<open>get_client_family_ids\<close> and related methods\<close>

definition group_edges ::
  "string \<Rightarrow> 'r list \<Rightarrow> ('r \<Rightarrow> int option) list \<Rightarrow> ('r \<Rightarrow> int option) \<Rightarrow> (node \<times> node) list" where
  "group_edges node_prefix df group_ids individual_id =
     (let groups = map (\<lambda>cells. (butlast cells, last cells))
                     (drop_duplicates (dropna
                        (map (\<lambda>r. map (\<lambda>col. col r) (group_ids @ [individual_id])) df)));
          edges = concat (map (\<lambda>l. map (\<lambda>r. (snd l, snd r))
                                      (filter (\<lambda>r. fst r = fst l) groups)) groups)
      in map (\<lambda>e. ((node_prefix, Val (fst e)), (node_prefix, Val (snd e)))) edges)"

definition matching_edges :: "match_row list \<Rightarrow> (node \<times> node) list" where
  "matching_edges csv =
     (let matching = filter (\<lambda>r. None \<notin> set ([m_clientid r, m_Subject_Unique_Identifier r]
                                               @ m_other_columns r)) csv
      in map (\<lambda>v. ((''c'', Val (the (m_clientid v))),
                   (''h'', Val (the (m_Subject_Unique_Identifier v))))) matching)"

definition get_ids_from_nodes :: "string \<Rightarrow> node list \<Rightarrow> ident list" where
  "get_ids_from_nodes node_prefix ns =
     map (\<lambda>pair. snd pair) (filter (\<lambda>pair. fst pair = node_prefix) ns)"

text \<open>The dictionary comprehension \<^verbatim>\<open>{id: idx for idx, ids in enumerate(grouped_ids) for id in ids}\<close>:
  a later entry for a key already present replaces its value.\<close>

definition grouped_ids_dict :: "'k list list \<Rightarrow> ('k \<times> nat) list" where
  "grouped_ids_dict grouped_ids =
     fold (\<lambda>(idx, ids) d. fold (\<lambda>id d. AList.update id idx d) ids d)
       (enumerate 0 grouped_ids) []"

text \<open>No statement of \<^verbatim>\<open>create_dataframe_from_grouped_ids\<close> raises: it always returns the
  one-column table.\<close>

definition create_dataframe_from_grouped_ids :: "'k list list \<Rightarrow> error + ('k \<times> nat) list" where
  "create_dataframe_from_grouped_ids grouped_ids = Inr (grouped_ids_dict grouped_ids)"

definition G_individuals ::
  "hmis_row list \<Rightarrow> cp_row list \<Rightarrow> hmis_dup_row list \<Rightarrow> cp_dup_row list \<Rightarrow> match_row list \<Rightarrow> node graph" where
  "G_individuals hmis cp hmis_dups cp_dups match_csv =
     (let G = (Graph :: node graph);
          G = add_nodes_from (map (\<lambda>v. (''h'', v)) (column_values (map Subject_Unique_Identifier hmis))) G;
          G = add_nodes_from (map (\<lambda>v. (''c'', v)) (column_values (map Clientid cp))) G;
          G = add_edges_from (group_edges ''h'' hmis_dups [hd_Set_ID] hd_Subject_Unique_Identifier) G;
          G = add_edges_from (group_edges ''c'' cp_dups [cd_Set_ID] cd_Clientid) G;
          G = add_edges_from (matching_edges match_csv) G
      in G)"

definition G_families ::
  "hmis_row list \<Rightarrow> cp_row list \<Rightarrow> hmis_dup_row list \<Rightarrow> cp_dup_row list \<Rightarrow> match_row list \<Rightarrow> node graph" where
  "G_families hmis cp hmis_dups cp_dups match_csv =
     (let G = G_individuals hmis cp hmis_dups cp_dups match_csv;
          G = add_edges_from (group_edges ''h'' hmis [Family_Site_Identifier, Program_Start_Date]
                                Subject_Unique_Identifier) G;
          G = add_edges_from (group_edges ''c'' cp [Caseid] Clientid) G
      in G)"

text \<open>The result rows are the input rows with the two new columns: the individual label
  (\<^verbatim>\<open>'Subject Unique Identifier'\<close> / \<^verbatim>\<open>'Clientid'\<close>) and then the family label
  (\<^verbatim>\<open>'Family Identifier'\<close> / \<^verbatim>\<open>'Familyid'\<close>).\<close>

definition get_client_family_ids ::
  "hmis_row list \<Rightarrow> cp_row list \<Rightarrow> hmis_dup_row list \<Rightarrow> cp_dup_row list \<Rightarrow> match_row list \<Rightarrow>
   error + (((hmis_row \<times> nat option) \<times> nat option) list \<times> ((cp_row \<times> nat option) \<times> nat option) list)" where
  "get_client_family_ids hmis cp hmis_dups cp_dups match_csv =
     (let Gi = G_individuals hmis cp hmis_dups cp_dups match_csv;
          Gf = G_families hmis cp hmis_dups cp_dups match_csv;
          hmis_individuals = map (get_ids_from_nodes ''h'') (connected_components Gi);
          cp_individuals = map (get_ids_from_nodes ''c'') (connected_components Gi);
          hmis_families = map (get_ids_from_nodes ''h'') (connected_components Gf);
          cp_families = map (get_ids_from_nodes ''c'') (connected_components Gf)
      in case create_dataframe_from_grouped_ids hmis_individuals of Inl e \<Rightarrow> Inl e
         | Inr hmis_individuals \<Rightarrow>
        (case create_dataframe_from_grouped_ids hmis_families of Inl e \<Rightarrow> Inl e
         | Inr hmis_families \<Rightarrow>
        (case create_dataframe_from_grouped_ids cp_individuals of Inl e \<Rightarrow> Inl e
         | Inr cp_individuals \<Rightarrow>
        (case create_dataframe_from_grouped_ids cp_families of Inl e \<Rightarrow> Inl e
         | Inr cp_families \<Rightarrow>
           (let hmis1 = merge_left hmis Subject_Unique_Identifier hmis_individuals;
                hmis2 = merge_left hmis1 (\<lambda>r. Subject_Unique_Identifier (fst r)) hmis_families;
                cp1 = merge_left cp Clientid cp_individuals;
                cp2 = merge_left cp1 (\<lambda>r. Clientid (fst r)) cp_families
            in Inr (hmis2, cp2))))))"

section \<open>\<^verbatim>\<open>child_status\<close> and related methods\<close>

definition ADULT_AGE :: int where
  "ADULT_AGE = 18"

text \<open>\<^verbatim>\<open>relativedelta(start_date, dob).years\<close> belongs to dateutil; it is a parameter.\<close>

definition get_hmis_age_entered :: "(int \<Rightarrow> int \<Rightarrow> int) \<Rightarrow> hmis_row \<Rightarrow> int option" where
  "get_hmis_age_entered relativedelta_years row =
     (let start_date = Program_Start_Date row; dob = DOB row
      in if start_date = None \<or> dob = None then None
         else Some (relativedelta_years (the start_date) (the dob)))"

text \<open>A comparison with NaN is false.\<close>

definition lt_na :: "int option \<Rightarrow> int \<Rightarrow> bool" where
  "lt_na x n = (case x of None \<Rightarrow> False | Some a \<Rightarrow> a < n)"

record 'r child_status =
  row :: 'r
  Child :: bool
  Adult :: bool

definition hmis_child_status ::
  "(int \<Rightarrow> int \<Rightarrow> int) \<Rightarrow> hmis_row list \<Rightarrow> (hmis_row \<times> int option) child_status list" where
  "hmis_child_status relativedelta_years hmis =
     map (\<lambda>r. let Age_Entered = get_hmis_age_entered relativedelta_years r;
                  child = lt_na Age_Entered ADULT_AGE
              in \<lparr>row = (r, Age_Entered), Child = child, Adult = \<not> child\<rparr>) hmis"

definition cp_child_status :: "cp_row list \<Rightarrow> cp_row child_status list" where
  "cp_child_status cp =
     map (\<lambda>r. let child = lt_na (age r) ADULT_AGE
              in \<lparr>row = r, Child = child, Adult = \<not> child\<rparr>) cp"

section \<open>\<^verbatim>\<open>family_characteristics\<close> and related methods\<close>








section \<open>Notions used in the statements\<close>

text \<open>A list of components partitions a node set.\<close>

definition partitions :: "'v list list \<Rightarrow> 'v set \<Rightarrow> bool" where
  "partitions cs V \<longleftrightarrow>
     \<Union> (set ` set cs) = V \<and>
     (\<forall>i j. i < j \<and> j < length cs \<longrightarrow> set (cs ! i) \<inter> set (cs ! j) = {})"

text \<open>A small run: HMIS duplicate set 1 links 100 and 101, the match file links HMIS 101
  to Connecting Point 55, Connecting Point duplicate set 2 links 55 and 56; HMIS 999 has
  no evidence, and shares its site and start date with 101.\<close>

definition ex_hmis :: "hmis_row list" where
  "ex_hmis = [\<lparr>Subject_Unique_Identifier = Some 100, Family_Site_Identifier = None, Program_Start_Date = None, DOB = None\<rparr>,
     \<lparr>Subject_Unique_Identifier = Some 101, Family_Site_Identifier = Some 7, Program_Start_Date = Some 3, DOB = None\<rparr>,
     \<lparr>Subject_Unique_Identifier = Some 999, Family_Site_Identifier = Some 7, Program_Start_Date = Some 3, DOB = None\<rparr>]"
definition ex_cp :: "cp_row list" where
  "ex_cp = [\<lparr>Clientid = Some 55, Caseid = Some 1, age = None\<rparr>, \<lparr>Clientid = Some 56, Caseid = Some 2, age = None\<rparr>]"
definition ex_hd :: "hmis_dup_row list" where
  "ex_hd = [\<lparr>hd_Set_ID = Some 1, hd_Subject_Unique_Identifier = Some 100\<rparr>, \<lparr>hd_Set_ID = Some 1, hd_Subject_Unique_Identifier = Some 101\<rparr>]"
definition ex_cd :: "cp_dup_row list" where
  "ex_cd = [\<lparr>cd_Set_ID = Some 2, cd_Clientid = Some 55\<rparr>, \<lparr>cd_Set_ID = Some 2, cd_Clientid = Some 56\<rparr>]"
definition ex_m :: "match_row list" where
  "ex_m = [\<lparr>m_clientid = Some 55, m_Subject_Unique_Identifier = Some 101, m_other_columns = []\<rparr>]"

definition ex_hmis_out :: "((hmis_row \<times> nat option) \<times> nat option) list" where
  "ex_hmis_out = [((ex_hmis ! 0, Some 0), Some 0), ((ex_hmis ! 1, Some 0), Some 0),
                  ((ex_hmis ! 2, Some 1), Some 0)]"

definition ex_cp_out :: "((cp_row \<times> nat option) \<times> nat option) list" where
  "ex_cp_out = [((ex_cp ! 0, Some 0), Some 0), ((ex_cp ! 1, Some 0), Some 0)]"

definition complete_rows :: "('r \<Rightarrow> int option) list \<Rightarrow> ('r \<Rightarrow> int option) \<Rightarrow> 'r list \<Rightarrow> 'r list" where
  "complete_rows group_ids individual_id df =
     filter (\<lambda>r. (\<forall>g \<in> set group_ids. g r \<noteq> None) \<and> individual_id r \<noteq> None) df"

definition set_id_pairs ::
  "('r \<Rightarrow> int option) list \<Rightarrow> ('r \<Rightarrow> int option) \<Rightarrow> 'r list \<Rightarrow> (int list \<times> int) list" where
  "set_id_pairs group_ids individual_id df =
     drop_duplicates (map (\<lambda>r. (map (\<lambda>g. the (g r)) group_ids, the (individual_id r)))
                        (complete_rows group_ids individual_id df))"

definition pairs_sharing_set_id :: "string \<Rightarrow> (int list \<times> int) list \<Rightarrow> (node \<times> node) list" where
  "pairs_sharing_set_id node_prefix ps =
     concat (map (\<lambda>l. map (\<lambda>r. ((node_prefix, Val (snd l)), (node_prefix, Val (snd r))))
                          (filter (\<lambda>r. fst r = fst l) ps)) ps)"

text \<open>Two cases without a client.\<close>

definition ex_cp_nan :: "cp_row list" where
  "ex_cp_nan = [\<lparr>Clientid = None, Caseid = Some 1, age = None\<rparr>,
                \<lparr>Clientid = None, Caseid = Some 2, age = None\<rparr>]"

definition ex_match_row :: match_row where
  "ex_match_row = \<lparr>m_clientid = Some 55, m_Subject_Unique_Identifier = Some 101,
                     m_other_columns = [None]\<rparr>"








section \<open>Breadth-first search and connected components\<close>

lemma set_adj: "set (adj G u) = adj_rel G `` {u}"
  by (force simp: adj_def adj_rel_def image_iff)

lemma sym_adj_rel: "sym (adj_rel G)"
  by (auto simp: adj_rel_def sym_def)

lemma connected_refl: "connected G u u"
  by (simp add: connected_def)

lemma connected_sym: "connected G u v \<Longrightarrow> connected G v u"
  unfolding connected_def using sym_adj_rel [of G] by (meson sym_rtrancl symD)

lemma connected_trans: "connected G u v \<Longrightarrow> connected G v w \<Longrightarrow> connected G u w"
  unfolding connected_def by (rule rtrancl_trans)

lemma plain_bfs_mono: "set seen \<union> set ws \<subseteq> set (plain_bfs G seen ws)"
  by (induction G seen ws rule: plain_bfs.induct) auto


lemma plain_bfs_sound:
  "x \<in> set (plain_bfs G seen ws) \<Longrightarrow> x \<in> set seen \<or> (\<exists>w \<in> set ws. connected G w x)"
proof (induction G seen ws rule: plain_bfs.induct)
  case (1 G seen)
  then show ?case by simp
next
  case (2 G seen v ws)
  show ?case
  proof (cases "v \<in> set seen")
    case True
    with 2 show ?thesis by auto
  next
    case False
    with 2 have "x \<in> set (seen @ [v]) \<or> (\<exists>w \<in> set (ws @ adj G v). connected G w x)"
      by simp
    then consider "x \<in> set seen" | "x = v" | w where "w \<in> set ws" "connected G w x"
      | w where "w \<in> set (adj G v)" "connected G w x"
      by auto
    then show ?thesis
    proof cases
      case 4
      then have "connected G v w"
        by (auto simp: set_adj connected_def)
      with 4 have "connected G v x" by (blast intro: connected_trans)
      then show ?thesis by auto
    qed (auto intro: connected_refl)
  qed
qed

lemma plain_bfs_closed:
  "\<forall>u \<in> set seen. set (adj G u) \<subseteq> set seen \<union> set ws \<Longrightarrow>
   u \<in> set (plain_bfs G seen ws) \<Longrightarrow> set (adj G u) \<subseteq> set (plain_bfs G seen ws)"
proof (induction G seen ws rule: plain_bfs.induct)
  case (1 G seen)
  then show ?case by auto
next
  case (2 G seen v ws)
  show ?case
  proof (cases "v \<in> set seen")
    case True
    with 2 show ?thesis by auto
  next
    case False
    have "\<forall>u \<in> set (seen @ [v]). set (adj G u) \<subseteq> set (seen @ [v]) \<union> set (ws @ adj G v)"
      using "2.prems"(1) by auto
    with 2 False show ?thesis by simp
  qed
qed

declare plain_bfs.simps [simp del]

lemma plain_bfs_component: "set (plain_bfs G [] [v]) = {x. connected G v x}"
proof
  show "set (plain_bfs G [] [v]) \<subseteq> {x. connected G v x}"
    using plain_bfs_sound [of _ G "[]" "[v]"] by auto
next
  have v: "v \<in> set (plain_bfs G [] [v])"
    using plain_bfs_mono [of "[]" "[v]" G] by simp
  have closed_step: "y \<in> set (plain_bfs G [] [v])"
    if "x \<in> set (plain_bfs G [] [v])" "(x, y) \<in> adj_rel G" for x y
    using plain_bfs_closed [of "[]" G "[v]" x] that by (auto simp: set_adj)
  have "x \<in> set (plain_bfs G [] [v])" if "(v, x) \<in> (adj_rel G)\<^sup>*" for x
    using that
  proof (induction rule: rtrancl_induct)
    case base
    show ?case by (rule v)
  next
    case (step y z)
    then show ?case by (blast intro: closed_step)
  qed
  then show "{x. connected G v x} \<subseteq> set (plain_bfs G [] [v])"
    by (auto simp: connected_def)
qed



lemma closed_empty: "closed G {}"
  by (simp add: closed_def)

lemma closed_class: "closed G {x. connected G v x}"
  by (auto simp: closed_def intro: connected_trans)

lemma closed_Un: "closed G A \<Longrightarrow> closed G B \<Longrightarrow> closed G (A \<union> B)"
  by (auto simp: closed_def)

lemma components_from_class:
  "c \<in> set (components_from G seen vs) \<Longrightarrow>
   \<exists>v \<in> set vs. v \<notin> set seen \<and> set c = {x. connected G v x}"
proof (induction vs arbitrary: seen)
  case Nil
  then show ?case by simp
next
  case (Cons v vs)
  show ?case
  proof (cases "v \<in> set seen")
    case True
    with Cons show ?thesis by auto
  next
    case False
    with Cons.prems have "c = plain_bfs G [] [v] \<or>
        c \<in> set (components_from G (seen @ plain_bfs G [] [v]) vs)"
      by (simp add: Let_def)
    then show ?thesis
    proof
      assume "c = plain_bfs G [] [v]"
      with False show ?thesis by (auto simp: plain_bfs_component)
    next
      assume "c \<in> set (components_from G (seen @ plain_bfs G [] [v]) vs)"
      from Cons.IH [OF this] show ?thesis by auto
    qed
  qed
qed

lemma components_from_cover:
  "x \<in> set vs \<Longrightarrow> x \<in> set seen \<or> (\<exists>c \<in> set (components_from G seen vs). x \<in> set c)"
proof (induction vs arbitrary: seen)
  case Nil
  then show ?case by simp
next
  case (Cons v vs)
  show ?case
  proof (cases "v \<in> set seen")
    case True
    with Cons show ?thesis by auto
  next
    case False
    have v: "v \<in> set (plain_bfs G [] [v])"
      by (simp add: plain_bfs_component connected_refl)
    show ?thesis
    proof (cases "x = v")
      case True
      with False v show ?thesis by (simp add: Let_def)
    next
      case neq: False
      with Cons.prems have "x \<in> set vs" by simp
      from Cons.IH [OF this, of "seen @ plain_bfs G [] [v]"] False
      show ?thesis by (auto simp: Let_def)
    qed
  qed
qed

lemma components_from_disjoint_seen:
  assumes "c \<in> set (components_from G seen vs)" and "closed G (set seen)"
  shows "set c \<inter> set seen = {}"
proof -
  from components_from_class [OF assms(1)]
  obtain v where v: "v \<notin> set seen" "set c = {x. connected G v x}" by blast
  show ?thesis
  proof (rule ccontr)
    assume "set c \<inter> set seen \<noteq> {}"
    then obtain x where "x \<in> set c" "x \<in> set seen" by blast
    with v have "connected G x v" by (auto intro: connected_sym)
    with \<open>x \<in> set seen\<close> assms(2) have "v \<in> set seen" by (auto simp: closed_def)
    with v show False by simp
  qed
qed

lemma components_from_pairwise:
  "closed G (set seen) \<Longrightarrow> i < j \<Longrightarrow> j < length (components_from G seen vs) \<Longrightarrow>
   set (components_from G seen vs ! i) \<inter> set (components_from G seen vs ! j) = {}"
proof (induction vs arbitrary: seen i j)
  case Nil
  then show ?case by simp
next
  case (Cons v vs)
  show ?case
  proof (cases "v \<in> set seen")
    case True
    with Cons show ?thesis by simp
  next
    case False
    let ?c = "plain_bfs G [] [v]"
    let ?rest = "components_from G (seen @ ?c) vs"
    have cs: "components_from G seen (v # vs) = ?c # ?rest"
      using False by (simp add: Let_def)
    have cl: "closed G (set (seen @ ?c))"
      using Cons.prems(1) closed_class [of G v] by (simp add: closed_Un plain_bfs_component)
    obtain j' where j': "j = Suc j'" using Cons.prems(2) by (cases j) auto
    with Cons.prems(3) cs have j'len: "j' < length ?rest" by simp
    show ?thesis
    proof (cases i)
      case 0
      from j'len have "?rest ! j' \<in> set ?rest" by simp
      from components_from_disjoint_seen [OF this cl]
      have "set (?rest ! j') \<inter> set ?c = {}" by auto
      with 0 j' cs show ?thesis by auto
    next
      case (Suc i')
      with Cons.prems(2) j' have "i' < j'" by simp
      from Cons.IH [OF cl this j'len] Suc j' cs show ?thesis by simp
    qed
  qed
qed

lemma connected_components_class:
  "c \<in> set (connected_components G) \<Longrightarrow> \<exists>v \<in> set (nodes G). set c = {x. connected G v x}"
  unfolding connected_components_def by (drule components_from_class) auto

lemma connected_components_cover:
  "x \<in> set (nodes G) \<Longrightarrow> \<exists>c \<in> set (connected_components G). x \<in> set c"
  unfolding connected_components_def using components_from_cover [of x "nodes G" "[]" G] by simp

lemma connected_components_pairwise:
  "i < j \<Longrightarrow> j < length (connected_components G) \<Longrightarrow>
   set (connected_components G ! i) \<inter> set (connected_components G ! j) = {}"
  unfolding connected_components_def
  by (rule components_from_pairwise) (simp_all add: closed_empty)

lemma connected_components_disjoint:
  assumes "i < length (connected_components G)" "j < length (connected_components G)"
    and "x \<in> set (connected_components G ! i)" "x \<in> set (connected_components G ! j)"
  shows "i = j"
proof (rule ccontr)
  assume "i \<noteq> j"
  then consider "i < j" | "j < i" by linarith
  then show False
    using assms connected_components_pairwise [of i j G] connected_components_pairwise [of j i G]
    by cases auto
qed

lemma connected_components_closed:
  assumes "i < length (connected_components G)" "x \<in> set (connected_components G ! i)"
    and "connected G x y"
  shows "y \<in> set (connected_components G ! i)"
proof -
  from assms(1) have "connected_components G ! i \<in> set (connected_components G)" by simp
  from connected_components_class [OF this] obtain v
    where v: "set (connected_components G ! i) = {x. connected G v x}" by blast
  with assms(2,3) show ?thesis by (auto intro: connected_trans)
qed

lemma connected_in_nodes:
  assumes "wf_graph G" "connected G v x" "v \<in> set (nodes G)"
  shows "x \<in> set (nodes G)"
proof -
  have "(v, x) \<in> (adj_rel G)\<^sup>*" using assms(2) by (simp add: connected_def)
  then show ?thesis
  proof (induction rule: rtrancl_induct)
    case base
    show ?case by (rule assms(3))
  next
    case (step y z)
    then have "z \<in> endpoints G" by (force simp: adj_rel_def endpoints_def)
    with assms(1) show ?case by (auto simp: wf_graph_def)
  qed
qed

lemma connected_components_nodes:
  assumes "wf_graph G" "c \<in> set (connected_components G)"
  shows "set c \<subseteq> set (nodes G)"
  using connected_components_class [OF assms(2)] connected_in_nodes [OF assms(1)] by auto


subsection \<open>Graph construction\<close>

lemma nodes_add_node: "set (nodes (add_node n G)) = insert n (set (nodes G))"
  by (auto simp: add_node_def)

lemma edges_add_node: "edges (add_node n G) = edges G"
  by (simp add: add_node_def)

lemma distinct_add_node: "distinct (nodes G) \<Longrightarrow> distinct (nodes (add_node n G))"
  by (simp add: add_node_def)

lemma nodes_add_nodes_from: "set (nodes (add_nodes_from ns G)) = set ns \<union> set (nodes G)"
  unfolding add_nodes_from_def by (induction ns arbitrary: G) (auto simp: nodes_add_node)

lemma edges_add_nodes_from: "edges (add_nodes_from ns G) = edges G"
  unfolding add_nodes_from_def by (induction ns arbitrary: G) (auto simp: edges_add_node)

lemma distinct_add_nodes_from:
  "distinct (nodes G) \<Longrightarrow> distinct (nodes (add_nodes_from ns G))"
  unfolding add_nodes_from_def by (induction ns arbitrary: G) (auto simp: distinct_add_node)

lemma nodes_add_edge: "set (nodes (add_edge e G)) = {fst e, snd e} \<union> set (nodes G)"
  by (auto simp: add_edge_def Let_def nodes_add_node)

lemma edges_add_edge: "edges (add_edge e G) = edges G @ [e]"
  by (simp add: add_edge_def Let_def edges_add_node)

lemma distinct_add_edge: "distinct (nodes G) \<Longrightarrow> distinct (nodes (add_edge e G))"
  by (simp add: add_edge_def Let_def distinct_add_node)

lemma nodes_add_edges_from:
  "set (nodes (add_edges_from es G)) = fst ` set es \<union> snd ` set es \<union> set (nodes G)"
  unfolding add_edges_from_def by (induction es arbitrary: G) (auto simp: nodes_add_edge)

lemma edges_add_edges_from: "edges (add_edges_from es G) = edges G @ es"
  unfolding add_edges_from_def by (induction es arbitrary: G) (auto simp: edges_add_edge)

lemma distinct_add_edges_from:
  "distinct (nodes G) \<Longrightarrow> distinct (nodes (add_edges_from es G))"
  unfolding add_edges_from_def by (induction es arbitrary: G) (auto simp: distinct_add_edge)

lemma wf_graph_Graph: "wf_graph Graph"
  by (simp add: wf_graph_def Graph_def endpoints_def)

lemma wf_graph_add_nodes_from: "wf_graph G \<Longrightarrow> wf_graph (add_nodes_from ns G)"
  by (auto simp: wf_graph_def endpoints_def nodes_add_nodes_from edges_add_nodes_from
        distinct_add_nodes_from)

lemma wf_graph_add_edges_from: "wf_graph G \<Longrightarrow> wf_graph (add_edges_from es G)"
  by (auto simp: wf_graph_def endpoints_def nodes_add_edges_from edges_add_edges_from
        distinct_add_edges_from)

lemma wf_graph_G_individuals: "wf_graph (G_individuals hmis cp hdups cdups m)"
  by (simp add: G_individuals_def Let_def wf_graph_Graph wf_graph_add_nodes_from
        wf_graph_add_edges_from)

lemma wf_graph_G_families: "wf_graph (G_families hmis cp hdups cdups m)"
  by (simp add: G_families_def Let_def wf_graph_G_individuals wf_graph_add_edges_from)

subsection \<open>The label dictionary and the left join\<close>

lemma fold_update_map_of:
  "map_of (fold (\<lambda>id d. AList.update id idx d) ids d) k =
     (if k \<in> set ids then Some idx else map_of d k)"
  by (induction ids arbitrary: d) (auto simp: update_conv)

lemma fold_update_distinct:
  "distinct (map fst d) \<Longrightarrow> distinct (map fst (fold (\<lambda>id d. AList.update id idx d) ids d))"
  by (induction ids arbitrary: d) (auto simp: distinct_update)

lemma dict_fold_untouched:
  "\<forall>g \<in> set gs. k \<notin> set g \<Longrightarrow>
   map_of (fold (\<lambda>(idx, ids) d. fold (\<lambda>id d. AList.update id idx d) ids d)
             (enumerate n gs) d) k = map_of d k"
  by (induction gs arbitrary: n d) (auto simp: fold_update_map_of)

lemma dict_fold_distinct:
  "distinct (map fst d) \<Longrightarrow>
   distinct (map fst (fold (\<lambda>(idx, ids) d. fold (\<lambda>id d. AList.update id idx d) ids d)
             (enumerate n gs) d))"
  by (induction gs arbitrary: n d) (auto simp: fold_update_distinct)

lemma dict_fold_last:
  "i < length gs \<Longrightarrow> k \<in> set (gs ! i) \<Longrightarrow>
   \<forall>j. i < j \<and> j < length gs \<longrightarrow> k \<notin> set (gs ! j) \<Longrightarrow>
   map_of (fold (\<lambda>(idx, ids) d. fold (\<lambda>id d. AList.update id idx d) ids d)
             (enumerate n gs) d) k = Some (n + i)"
proof (induction gs arbitrary: n d i)
  case Nil
  then show ?case by simp
next
  case (Cons g gs)
  show ?case
  proof (cases i)
    case 0
    have "\<forall>g' \<in> set gs. k \<notin> set g'"
    proof
      fix g' assume "g' \<in> set gs"
      then obtain j where "j < length gs" "gs ! j = g'" by (auto simp: in_set_conv_nth)
      with Cons.prems(3) [rule_format, of "Suc j"] 0 show "k \<notin> set g'" by auto
    qed
    with 0 Cons.prems(2) show ?thesis
      by (simp add: dict_fold_untouched fold_update_map_of)
  next
    case (Suc i')
    have "\<forall>j. i' < j \<and> j < length gs \<longrightarrow> k \<notin> set (gs ! j)"
    proof (intro allI impI)
      fix j assume "i' < j \<and> j < length gs"
      with Cons.prems(3) [rule_format, of "Suc j"] Suc show "k \<notin> set (gs ! j)" by auto
    qed
    with Cons.IH [where i = i' and n = "Suc n"] Cons.prems Suc show ?thesis by simp
  qed
qed

lemma grouped_ids_dict_last:
  "i < length gs \<Longrightarrow> k \<in> set (gs ! i) \<Longrightarrow>
   \<forall>j. i < j \<and> j < length gs \<longrightarrow> k \<notin> set (gs ! j) \<Longrightarrow>
   map_of (grouped_ids_dict gs) k = Some i"
  unfolding grouped_ids_dict_def using dict_fold_last [of i gs k 0 "[]"] by simp

lemma grouped_ids_dict_absent:
  "\<forall>g \<in> set gs. k \<notin> set g \<Longrightarrow> map_of (grouped_ids_dict gs) k = None"
  unfolding grouped_ids_dict_def by (simp add: dict_fold_untouched)

lemma grouped_ids_dict_distinct: "distinct (map fst (grouped_ids_dict gs))"
  unfolding grouped_ids_dict_def by (rule dict_fold_distinct) simp

lemma filter_key_distinct:
  "distinct (map fst right) \<Longrightarrow>
   filter (\<lambda>kv. fst kv = x) right = (case map_of right x of None \<Rightarrow> [] | Some v \<Rightarrow> [(x, v)])"
proof (induction right)
  case Nil
  then show ?case by simp
next
  case (Cons kv right)
  show ?case
  proof (cases "fst kv = x")
    case True
    with Cons.prems have "x \<notin> fst ` set right" by auto
    then have "map_of right x = None" "filter (\<lambda>kv. fst kv = x) right = []"
      by (auto simp: map_of_eq_None_iff filter_empty_conv)
    with True show ?thesis by (cases kv) auto
  next
    case False
    with Cons show ?thesis by (cases kv) auto
  qed
qed

lemma key_matches_Some: "key_matches (Some a) k \<longleftrightarrow> k = Val a"
  by (cases k) auto

lemma key_matches_None: "key_matches None k \<longleftrightarrow> (\<exists>i. k = NaN i)"
  by (cases k) auto

lemma merge_left_mem:
  "(r, l) \<in> set (merge_left left left_on right) \<longleftrightarrow>
     r \<in> set left \<and>
     (case l of None \<Rightarrow> \<forall>kv \<in> set right. \<not> key_matches (left_on r) (fst kv)
      | Some v \<Rightarrow> \<exists>k. (k, v) \<in> set right \<and> key_matches (left_on r) k)"
proof -
  have row: "(r, l) \<in> set (case filter (\<lambda>kv. key_matches (left_on x) (fst kv)) right of
                          [] \<Rightarrow> [(x, None)]
                        | ms \<Rightarrow> map (\<lambda>kv. (x, Some (snd kv))) ms) \<longleftrightarrow>
     r = x \<and>
     (case l of None \<Rightarrow> \<forall>kv \<in> set right. \<not> key_matches (left_on x) (fst kv)
      | Some v \<Rightarrow> \<exists>k. (k, v) \<in> set right \<and> key_matches (left_on x) k)" for x
  proof (cases "filter (\<lambda>kv. key_matches (left_on x) (fst kv)) right")
    case Nil
    then have "\<forall>kv \<in> set right. \<not> key_matches (left_on x) (fst kv)"
      by (simp add: filter_empty_conv)
    with Nil show ?thesis by (cases l) auto
  next
    case (Cons kv ms)
    then have "kv \<in> set (filter (\<lambda>kv. key_matches (left_on x) (fst kv)) right)" by simp
    then have ex: "\<not> (\<forall>kv \<in> set right. \<not> key_matches (left_on x) (fst kv))" by auto
    have "(r, l) \<in> set (map (\<lambda>kv. (x, Some (snd kv)))
              (filter (\<lambda>kv. key_matches (left_on x) (fst kv)) right)) \<longleftrightarrow>
          r = x \<and> (\<exists>k v. l = Some v \<and> (k, v) \<in> set right \<and> key_matches (left_on x) k)"
      by force
    with Cons ex show ?thesis by (cases l) auto
  qed
  show ?thesis unfolding merge_left_def using row by auto
qed

lemma merge_left_present:
  assumes d: "distinct (map fst right)" and p: "\<forall>r \<in> set left. left_on r \<noteq> None"
  shows "merge_left left left_on right =
           map (\<lambda>r. (r, map_of right (Val (the (left_on r))))) left"
proof -
  have "(case filter (\<lambda>kv. key_matches (left_on r) (fst kv)) right of
           [] \<Rightarrow> [(r, None)] | ms \<Rightarrow> map (\<lambda>kv. (r, Some (snd kv))) ms) =
        [(r, map_of right (Val (the (left_on r))))]" if "r \<in> set left" for r
  proof -
    from that p obtain a where a: "left_on r = Some a" by auto
    then have "filter (\<lambda>kv. key_matches (left_on r) (fst kv)) right =
               filter (\<lambda>kv. fst kv = Val a) right"
      by (simp add: key_matches_Some)
    with a show ?thesis
      by (simp add: filter_key_distinct [OF d] split: option.splits)
  qed
  then show ?thesis unfolding merge_left_def by (induction left) auto
qed

lemma merge_left_label:
  assumes d: "distinct (map fst right)" and m: "map_of right (Val a) = Some i"
    and r: "(r, l) \<in> set (merge_left left left_on right)" and k: "left_on r = Some a"
  shows "l = Some i"
proof (cases l)
  case None
  with r k have "\<forall>kv \<in> set right. fst kv \<noteq> Val a"
    by (simp add: merge_left_mem key_matches_Some)
  moreover from m have "(Val a, i) \<in> set right" by (rule map_of_SomeD)
  ultimately show ?thesis by force
next
  case (Some v)
  with r k have "(Val a, v) \<in> set right"
    by (auto simp: merge_left_mem key_matches_Some)
  with d have "map_of right (Val a) = Some v" by simp
  with m Some show ?thesis by simp
qed

section \<open>Partition into components\<close>

lemma connected_components_partitions:
  assumes "wf_graph G"
  shows "partitions (connected_components G) (set (nodes G))"
  unfolding partitions_def
proof (intro conjI allI impI)
  show "\<Union> (set ` set (connected_components G)) = set (nodes G)"
    using connected_components_nodes [OF assms] connected_components_cover [of _ G] by blast
next
  fix i j assume "i < j \<and> j < length (connected_components G)"
  then show "set (connected_components G ! i) \<inter> set (connected_components G ! j) = {}"
    by (simp add: connected_components_pairwise)
qed

text \<open>
  C7.  For the identity graph and for the family graph, the connected components partition
  the node set of the graph: their union is the node set and two different components
  share no node.
\<close>

theorem components_partition_nodes:
  "partitions (connected_components (G_individuals hmis cp hdups cdups m))
     (set (nodes (G_individuals hmis cp hdups cdups m))) \<and>
   partitions (connected_components (G_families hmis cp hdups cdups m))
     (set (nodes (G_families hmis cp hdups cdups m)))"
  by (simp add: connected_components_partitions wf_graph_G_individuals wf_graph_G_families)

lemma ex_components_individuals:
  "connected_components (G_individuals ex_hmis ex_cp ex_hd ex_cd ex_m) =
     [[(''h'', Val 100), (''h'', Val 101), (''c'', Val 55), (''c'', Val 56)], [(''h'', Val 999)]]"
  by code_simp

lemma ex_components_families:
  "connected_components (G_families ex_hmis ex_cp ex_hd ex_cd ex_m) =
     [[(''h'', Val 100), (''h'', Val 101), (''h'', Val 999), (''c'', Val 55), (''c'', Val 56)]]"
  by code_simp

lemma ex_nodes_individuals:
  "nodes (G_individuals ex_hmis ex_cp ex_hd ex_cd ex_m) =
     [(''h'', Val 100), (''h'', Val 101), (''h'', Val 999), (''c'', Val 55), (''c'', Val 56)]"
  by code_simp

theorem components_partition_nodes_witness:
  "connected_components (G_individuals ex_hmis ex_cp ex_hd ex_cd ex_m) =
     [[(''h'', Val 100), (''h'', Val 101), (''c'', Val 55), (''c'', Val 56)], [(''h'', Val 999)]] \<and>
   (0::nat) < 1 \<and> 1 < length (connected_components (G_individuals ex_hmis ex_cp ex_hd ex_cd ex_m)) \<and>
   set (connected_components (G_individuals ex_hmis ex_cp ex_hd ex_cd ex_m) ! 0) \<inter>
   set (connected_components (G_individuals ex_hmis ex_cp ex_hd ex_cd ex_m) ! 1) = {} \<and>
   \<Union> (set ` set (connected_components (G_individuals ex_hmis ex_cp ex_hd ex_cd ex_m))) =
     set (nodes (G_individuals ex_hmis ex_cp ex_hd ex_cd ex_m))"
proof -
  have len: "(0::nat) < 1 \<and> 1 < length (connected_components (G_individuals ex_hmis ex_cp ex_hd ex_cd ex_m))"
    by (simp add: ex_components_individuals)
  from components_partition_nodes [of ex_hmis ex_cp ex_hd ex_cd ex_m]
  have p: "partitions (connected_components (G_individuals ex_hmis ex_cp ex_hd ex_cd ex_m))
     (set (nodes (G_individuals ex_hmis ex_cp ex_hd ex_cd ex_m)))" by simp
  from p have "\<Union> (set ` set (connected_components (G_individuals ex_hmis ex_cp ex_hd ex_cd ex_m))) =
     set (nodes (G_individuals ex_hmis ex_cp ex_hd ex_cd ex_m))"
    by (simp add: partitions_def)
  moreover from p len have "set (connected_components (G_individuals ex_hmis ex_cp ex_hd ex_cd ex_m) ! 0) \<inter>
   set (connected_components (G_individuals ex_hmis ex_cp ex_hd ex_cd ex_m) ! 1) = {}"
    unfolding partitions_def by blast
  ultimately show ?thesis using len ex_components_individuals by simp
qed


section \<open>Labels across the two sources\<close>

lemma get_ids_from_nodes_iff: "a \<in> set (get_ids_from_nodes p ns) \<longleftrightarrow> (p, a) \<in> set ns"
  by (force simp: get_ids_from_nodes_def)

lemma label_of_node:
  assumes i: "i < length (connected_components G)"
    and x: "(p, a) \<in> set (connected_components G ! i)"
  shows "map_of (grouped_ids_dict (map (get_ids_from_nodes p) (connected_components G))) a = Some i"
proof (rule grouped_ids_dict_last)
  show "i < length (map (get_ids_from_nodes p) (connected_components G))"
    using i by simp
  show "a \<in> set (map (get_ids_from_nodes p) (connected_components G) ! i)"
    using i x by (simp add: get_ids_from_nodes_iff)
  show "\<forall>j. i < j \<and> j < length (map (get_ids_from_nodes p) (connected_components G)) \<longrightarrow>
          a \<notin> set (map (get_ids_from_nodes p) (connected_components G) ! j)"
  proof (intro allI impI notI)
    fix j
    assume j: "i < j \<and> j < length (map (get_ids_from_nodes p) (connected_components G))"
      and "a \<in> set (map (get_ids_from_nodes p) (connected_components G) ! j)"
    then have "(p, a) \<in> set (connected_components G ! j)"
      by (simp add: get_ids_from_nodes_iff)
    with x j connected_components_pairwise [of i j G] show False by auto
  qed
qed

lemma node_has_index:
  assumes "x \<in> set (nodes G)"
  shows "\<exists>i < length (connected_components G). x \<in> set (connected_components G ! i)"
proof -
  from connected_components_cover [OF assms] obtain c
    where c: "c \<in> set (connected_components G)" "x \<in> set c" by blast
  from c(1) obtain i where "i < length (connected_components G)" "connected_components G ! i = c"
    unfolding in_set_conv_nth by blast
  with c(2) show ?thesis by blast
qed

lemma get_client_family_ids_eq:
  "get_client_family_ids hmis cp hdups cdups m =
     Inr (merge_left
            (merge_left hmis Subject_Unique_Identifier
               (grouped_ids_dict (map (get_ids_from_nodes ''h'')
                  (connected_components (G_individuals hmis cp hdups cdups m)))))
            (\<lambda>r. Subject_Unique_Identifier (fst r))
            (grouped_ids_dict (map (get_ids_from_nodes ''h'')
               (connected_components (G_families hmis cp hdups cdups m)))),
          merge_left
            (merge_left cp Clientid
               (grouped_ids_dict (map (get_ids_from_nodes ''c'')
                  (connected_components (G_individuals hmis cp hdups cdups m)))))
            (\<lambda>r. Clientid (fst r))
            (grouped_ids_dict (map (get_ids_from_nodes ''c'')
               (connected_components (G_families hmis cp hdups cdups m)))))"
  by (simp add: get_client_family_ids_def create_dataframe_from_grouped_ids_def Let_def)

lemma column_values_Some:
  assumes "Some a \<in> set cells"
  shows "Val a \<in> set (column_values cells)"
proof -
  from assms obtain i where "i < length cells" "cells ! i = Some a"
    by (auto simp: in_set_conv_nth)
  then have "(i, Some a) \<in> set (enumerate 0 cells)"
    by (simp add: in_set_enumerate_eq)
  then have "(\<lambda>(i, c). case c of Some v \<Rightarrow> Val v | None \<Rightarrow> NaN i) (i, Some a)
               \<in> (\<lambda>(i, c). case c of Some v \<Rightarrow> Val v | None \<Rightarrow> NaN i) ` set (enumerate 0 cells)"
    by (rule imageI)
  then show ?thesis by (simp add: column_values_def)
qed

lemma hmis_node:
  assumes "r \<in> set hmis" "Subject_Unique_Identifier r = Some a"
  shows "(''h'', Val a) \<in> set (nodes (G_individuals hmis cp hdups cdups m))"
proof -
  from assms have "Some a \<in> set (map Subject_Unique_Identifier hmis)" by force
  then have "Val a \<in> set (column_values (map Subject_Unique_Identifier hmis))"
    by (rule column_values_Some)
  then show ?thesis
    by (simp add: G_individuals_def Let_def nodes_add_edges_from nodes_add_nodes_from)
qed


text \<open>
  C1.  Cross-source consistency.  When an HMIS identifier \<open>a\<close> and a Connecting Point
  identifier \<open>b\<close> are joined by a path of edges of the identity graph, the individual
  label merged onto every HMIS row of \<open>a\<close> equals the individual label merged onto every
  Connecting Point row of \<open>b\<close>, and it is not missing.
\<close>

theorem cross_source_consistency:
  assumes run: "get_client_family_ids hmis cp hdups cdups m = Inr (hmis', cp')"
    and h: "((r, l), f) \<in> set hmis'" and ra: "Subject_Unique_Identifier r = Some a"
    and c: "((s, l'), f') \<in> set cp'" and sb: "Clientid s = Some b"
    and path: "connected (G_individuals hmis cp hdups cdups m) (''h'', Val a) (''c'', Val b)"
  shows "l = l' \<and> l \<noteq> None"
proof -
  let ?G = "G_individuals hmis cp hdups cdups m"
  let ?dh = "grouped_ids_dict (map (get_ids_from_nodes ''h'') (connected_components ?G))"
  let ?dc = "grouped_ids_dict (map (get_ids_from_nodes ''c'') (connected_components ?G))"
  from run h have rl: "(r, l) \<in> set (merge_left hmis Subject_Unique_Identifier ?dh)"
    by (auto simp: get_client_family_ids_eq merge_left_mem [where left_on = "\<lambda>r. Subject_Unique_Identifier (fst r)"])
  from run c have sl: "(s, l') \<in> set (merge_left cp Clientid ?dc)"
    by (auto simp: get_client_family_ids_eq merge_left_mem [where left_on = "\<lambda>r. Clientid (fst r)"])
  from rl have r: "r \<in> set hmis" by (simp add: merge_left_mem)
  from node_has_index [OF hmis_node [OF r ra]] obtain i
    where i: "i < length (connected_components ?G)"
      and a: "(''h'', Val a) \<in> set (connected_components ?G ! i)"
    by blast
  from connected_components_closed [OF i a path]
  have b: "(''c'', Val b) \<in> set (connected_components ?G ! i)" .
  have "l = Some i"
    by (rule merge_left_label [OF grouped_ids_dict_distinct label_of_node [OF i a] rl ra])
  moreover have "l' = Some i"
    by (rule merge_left_label [OF grouped_ids_dict_distinct label_of_node [OF i b] sl sb])
  ultimately show ?thesis by simp
qed

lemma ex_run: "get_client_family_ids ex_hmis ex_cp ex_hd ex_cd ex_m = Inr (ex_hmis_out, ex_cp_out)"
  by code_simp

lemma ex_path:
  "connected (G_individuals ex_hmis ex_cp ex_hd ex_cd ex_m) (''h'', Val 100) (''c'', Val 56)"
proof -
  have "(''c'', Val 56) \<in> set (plain_bfs (G_individuals ex_hmis ex_cp ex_hd ex_cd ex_m) []
           [(''h'', Val 100)])"
    by code_simp
  then show ?thesis by (simp add: plain_bfs_component)
qed

theorem cross_source_consistency_witness:
  "get_client_family_ids ex_hmis ex_cp ex_hd ex_cd ex_m = Inr (ex_hmis_out, ex_cp_out) \<and>
   ((ex_hmis ! 0, Some 0), Some 0) \<in> set ex_hmis_out \<and>
   Subject_Unique_Identifier (ex_hmis ! 0) = Some 100 \<and>
   ((ex_cp ! 1, Some 0), Some 0) \<in> set ex_cp_out \<and>
   Clientid (ex_cp ! 1) = Some 56 \<and>
   connected (G_individuals ex_hmis ex_cp ex_hd ex_cd ex_m) (''h'', Val 100) (''c'', Val 56) \<and>
   (Some 0 :: nat option) = Some 0 \<and> (Some 0 :: nat option) \<noteq> None"
proof -
  have h: "((ex_hmis ! 0, Some 0), Some 0) \<in> set ex_hmis_out"
    by (simp add: ex_hmis_out_def)
  have ra: "Subject_Unique_Identifier (ex_hmis ! 0) = Some 100"
    by (simp add: ex_hmis_def)
  have c: "((ex_cp ! 1, Some 0), Some 0) \<in> set ex_cp_out"
    by (simp add: ex_cp_out_def)
  have sb: "Clientid (ex_cp ! 1) = Some 56"
    by (simp add: ex_cp_def)
  from cross_source_consistency [OF ex_run h ra c sb ex_path] ex_run h ra c sb ex_path
  show ?thesis by simp
qed

section \<open>Identity components refine family components\<close>

lemma edges_G_families:
  "set (edges (G_individuals hmis cp hdups cdups m)) \<subseteq> set (edges (G_families hmis cp hdups cdups m))"
  by (simp add: G_families_def Let_def edges_add_edges_from)

lemma nodes_G_families:
  "set (nodes (G_individuals hmis cp hdups cdups m)) \<subseteq> set (nodes (G_families hmis cp hdups cdups m))"
  by (auto simp: G_families_def Let_def nodes_add_edges_from)

lemma connected_mono:
  assumes "set (edges G) \<subseteq> set (edges G')" "connected G u v"
  shows "connected G' u v"
proof -
  from assms(1) have "adj_rel G \<subseteq> adj_rel G'" by (auto simp: adj_rel_def)
  then have "(adj_rel G)\<^sup>* \<subseteq> (adj_rel G')\<^sup>*" by (rule rtrancl_mono)
  with assms(2) show ?thesis by (auto simp: connected_def)
qed

lemma component_in_unique_component:
  assumes sub: "set (edges G) \<subseteq> set (edges G')" "set (nodes G) \<subseteq> set (nodes G')"
    and c: "c \<in> set (connected_components G)"
  shows "\<exists>!d. d \<in> set (connected_components G') \<and> set c \<subseteq> set d"
proof -
  from connected_components_class [OF c] obtain v
    where v: "v \<in> set (nodes G)" "set c = {x. connected G v x}" by blast
  then have vc: "v \<in> set c" by (simp add: connected_refl)
  from v sub have "v \<in> set (nodes G')" by auto
  from node_has_index [OF this] obtain i
    where i: "i < length (connected_components G')" "v \<in> set (connected_components G' ! i)"
    by blast
  have "set c \<subseteq> set (connected_components G' ! i)"
  proof
    fix x assume "x \<in> set c"
    with v have "connected G v x" by simp
    then have "connected G' v x" by (rule connected_mono [OF sub(1)])
    from connected_components_closed [OF i this] show "x \<in> set (connected_components G' ! i)" .
  qed
  moreover have "d = connected_components G' ! i"
    if d: "d \<in> set (connected_components G')" "set c \<subseteq> set d" for d
  proof -
    from d(1) obtain j where j: "j < length (connected_components G')" "connected_components G' ! j = d"
      unfolding in_set_conv_nth by blast
    with d(2) vc have "v \<in> set (connected_components G' ! j)" by auto
    from connected_components_disjoint [OF i(1) j(1) i(2) this] j show ?thesis by simp
  qed
  ultimately show ?thesis using i(1) by (intro ex1I [of _ "connected_components G' ! i"]) auto
qed

text \<open>
  C2.  Monotonic refinement.  Every edge of the identity graph is an edge of the family
  graph, nodes connected in the identity graph are connected in the family graph, and every
  identity component lies inside exactly one family component.
\<close>

theorem identity_refines_family:
  "set (edges (G_individuals hmis cp hdups cdups m)) \<subseteq> set (edges (G_families hmis cp hdups cdups m)) \<and>
   (\<forall>u v. connected (G_individuals hmis cp hdups cdups m) u v \<longrightarrow>
      connected (G_families hmis cp hdups cdups m) u v) \<and>
   (\<forall>c \<in> set (connected_components (G_individuals hmis cp hdups cdups m)).
      \<exists>!d. d \<in> set (connected_components (G_families hmis cp hdups cdups m)) \<and> set c \<subseteq> set d)"
proof (intro conjI ballI allI impI)
  fix u v assume "connected (G_individuals hmis cp hdups cdups m) u v"
  then show "connected (G_families hmis cp hdups cdups m) u v"
    by (rule connected_mono [OF edges_G_families])
next
  show "set (edges (G_individuals hmis cp hdups cdups m)) \<subseteq> set (edges (G_families hmis cp hdups cdups m))"
    by (rule edges_G_families)
next
  fix c assume "c \<in> set (connected_components (G_individuals hmis cp hdups cdups m))"
  then show "\<exists>!d. d \<in> set (connected_components (G_families hmis cp hdups cdups m)) \<and> set c \<subseteq> set d"
    by (rule component_in_unique_component [OF edges_G_families nodes_G_families])
qed

theorem identity_refines_family_witness:
  "[(''h'', Val 999)] \<in> set (connected_components (G_individuals ex_hmis ex_cp ex_hd ex_cd ex_m)) \<and>
   [(''h'', Val 100), (''h'', Val 101), (''h'', Val 999), (''c'', Val 55), (''c'', Val 56)]
      \<in> set (connected_components (G_families ex_hmis ex_cp ex_hd ex_cd ex_m)) \<and>
   set [(''h'', Val 999)] \<subseteq> set [(''h'', Val 100), (''h'', Val 101), (''h'', Val 999), (''c'', Val 55), (''c'', Val 56)] \<and>
   (\<exists>!d. d \<in> set (connected_components (G_families ex_hmis ex_cp ex_hd ex_cd ex_m)) \<and>
      set [(''h'', Val 999)] \<subseteq> set d)"
proof -
  have c: "[(''h'', Val 999)] \<in> set (connected_components (G_individuals ex_hmis ex_cp ex_hd ex_cd ex_m))"
    by (simp add: ex_components_individuals)
  from identity_refines_family [of ex_hmis ex_cp ex_hd ex_cd ex_m] c
  have "\<exists>!d. d \<in> set (connected_components (G_families ex_hmis ex_cp ex_hd ex_cd ex_m)) \<and>
      set [(''h'', Val 999)] \<subseteq> set d" by blast
  with c show ?thesis by (simp add: ex_components_families)
qed

section \<open>The label dictionary\<close>

text \<open>
  C3, as stated: when some raw identifier is in more than one group, the materializer
  ends in an error.  It does not: on the groups \<open>[[1], [1]]\<close> it returns a table.
\<close>

theorem materializer_duplicate_counterexample:
  "\<not> (\<not> distinct (concat [[1], [1::int]]) \<longrightarrow> isl (create_dataframe_from_grouped_ids [[1], [1::int]]))"
  by (simp add: create_dataframe_from_grouped_ids_def)

lemma ex_dup: "create_dataframe_from_grouped_ids [[1], [1::int]] = Inr [(1, 1)]"
  by code_simp

text \<open>
  C3, amended.  The materializer never ends in an error.  An identifier is mapped to the
  position of the last group that contains it; so when every identifier is in exactly one
  group, each is mapped to the position of its group.  An identifier in no group has no
  entry.
\<close>

theorem materializer_last_group_wins:
  "\<exists>d. create_dataframe_from_grouped_ids gs = Inr d \<and>
     (\<forall>i k. i < length gs \<and> k \<in> set (gs ! i) \<and>
        (\<forall>j. i < j \<and> j < length gs \<longrightarrow> k \<notin> set (gs ! j)) \<longrightarrow> map_of d k = Some i) \<and>
     (\<forall>k. k \<notin> \<Union> (set ` set gs) \<longrightarrow> map_of d k = None)"
  by (auto simp: create_dataframe_from_grouped_ids_def grouped_ids_dict_last
        grouped_ids_dict_absent)

theorem materializer_last_group_wins_witness:
  "create_dataframe_from_grouped_ids [[1, 2, 3], [4, 5, 6], [7, 8], [9::int]] =
     Inr [(1, 0), (2, 0), (3, 0), (4, 1), (5, 1), (6, 1), (7, 2), (8, 2), (9, 3)] \<and>
   (1::nat) < length [[1, 2, 3], [4, 5, 6], [7, 8], [9::int]] \<and>
   (5::int) \<in> set ([[1, 2, 3], [4, 5, 6], [7, 8], [9]] ! 1) \<and>
   map_of (projr (create_dataframe_from_grouped_ids [[1, 2, 3], [4, 5, 6], [7, 8], [9::int]])) 5 = Some 1 \<and>
   map_of (projr (create_dataframe_from_grouped_ids [[1], [1::int]])) 1 = Some 1"
proof -
  have e: "create_dataframe_from_grouped_ids [[1, 2, 3], [4, 5, 6], [7, 8], [9::int]] =
     Inr [(1, 0), (2, 0), (3, 0), (4, 1), (5, 1), (6, 1), (7, 2), (8, 2), (9, 3)]"
    by code_simp
  have later: "\<forall>j. 1 < j \<and> j < length [[1, 2, 3], [4, 5, 6], [7, 8], [9::int]] \<longrightarrow>
                 (5::int) \<notin> set ([[1, 2, 3], [4, 5, 6], [7, 8], [9]] ! j)"
    by (auto simp: nth_Cons split: nat.splits)
  from materializer_last_group_wins [of "[[1, 2, 3], [4, 5, 6], [7, 8], [9::int]]"] later
  have "map_of (projr (create_dataframe_from_grouped_ids [[1, 2, 3], [4, 5, 6], [7, 8], [9::int]])) 5 = Some 1"
    by (auto simp: create_dataframe_from_grouped_ids_def)
  moreover from materializer_last_group_wins [of "[[1], [1::int]]"]
  have "map_of (projr (create_dataframe_from_grouped_ids [[1], [1::int]])) 1 = Some 1"
    by (auto simp: create_dataframe_from_grouped_ids_def)
  ultimately show ?thesis using e by simp
qed

section \<open>Edges from the evidence tables\<close>

lemma remdups_map_inj_on:
  "inj_on f (set xs) \<Longrightarrow> remdups (map f xs) = map f (remdups xs)"
proof (induction xs)
  case Nil
  then show ?case by simp
next
  case (Cons x xs)
  then have "f x \<in> f ` set xs \<longleftrightarrow> x \<in> set xs" by (auto simp: inj_on_def)
  with Cons show ?case by simp
qed

lemma drop_duplicates_map_inj_on:
  "inj_on f (set xs) \<Longrightarrow> drop_duplicates (map f xs) = map f (drop_duplicates xs)"
proof -
  assume "inj_on f (set xs)"
  then have "inj_on f (set (rev xs))" by simp
  then have "remdups (map f (rev xs)) = map f (remdups (rev xs))"
    by (rule remdups_map_inj_on)
  then show ?thesis by (simp add: drop_duplicates_def rev_map)
qed

lemma set_drop_duplicates: "set (drop_duplicates xs) = set xs"
  by (simp add: drop_duplicates_def)

lemma distinct_drop_duplicates: "distinct (drop_duplicates xs)"
  by (simp add: drop_duplicates_def)

lemma dropna_cells:
  "dropna (map (\<lambda>r. map (\<lambda>col. col r) (gids @ [iid])) df) =
     map (\<lambda>r. map (\<lambda>g. the (g r)) gids @ [the (iid r)]) (complete_rows gids iid df)"
proof -
  have "filter (\<lambda>cells. None \<notin> set cells) (map (\<lambda>r. map (\<lambda>col. col r) (gids @ [iid])) df) =
        map (\<lambda>r. map (\<lambda>col. col r) (gids @ [iid])) (complete_rows gids iid df)"
    unfolding complete_rows_def filter_map
    by (rule arg_cong [where f = "map _"], rule filter_cong) (auto simp: comp_def image_iff eq_commute)
  then show ?thesis by (simp add: dropna_def comp_def)
qed

lemma inj_on_split_last:
  "inj_on (\<lambda>cells. (butlast cells, last cells)) {cs. cs \<noteq> []}"
proof (rule inj_onI)
  fix xs ys :: "'a list"
  assume "xs \<in> {cs. cs \<noteq> []}" "ys \<in> {cs. cs \<noteq> []}"
    and "(butlast xs, last xs) = (butlast ys, last ys)"
  then have "butlast xs @ [last xs] = butlast ys @ [last ys]" "xs \<noteq> []" "ys \<noteq> []" by auto
  then show "xs = ys" by simp
qed

lemma group_edges_groups:
  "map (\<lambda>cells. (butlast cells, last cells))
     (drop_duplicates (dropna (map (\<lambda>r. map (\<lambda>col. col r) (gids @ [iid])) df))) =
   set_id_pairs gids iid df"
proof -
  let ?rows = "map (\<lambda>r. map (\<lambda>g. the (g r)) gids @ [the (iid r)]) (complete_rows gids iid df)"
  have "inj_on (\<lambda>cells. (butlast cells, last cells)) (set ?rows)"
    by (rule inj_on_subset [OF inj_on_split_last]) auto
  then have "map (\<lambda>cells. (butlast cells, last cells)) (drop_duplicates ?rows) =
     drop_duplicates (map (\<lambda>cells. (butlast cells, last cells)) ?rows)"
    by (rule drop_duplicates_map_inj_on [symmetric])
  then show ?thesis unfolding dropna_cells set_id_pairs_def by (simp add: comp_def)
qed

lemma group_edges_eq:
  "group_edges p df gids iid = pairs_sharing_set_id p (set_id_pairs gids iid df)"
  unfolding group_edges_def Let_def group_edges_groups pairs_sharing_set_id_def
  by (simp add: map_concat comp_def)

lemma set_pairs_sharing_set_id:
  "set (pairs_sharing_set_id p ps) =
     {((p, Val a), (p, Val b)) | a b k. (k, a) \<in> set ps \<and> (k, b) \<in> set ps}"
  unfolding pairs_sharing_set_id_def by force

lemma set_set_id_pairs:
  "set (set_id_pairs gids iid df) =
     {(map (\<lambda>g. the (g r)) gids, the (iid r)) | r.
        r \<in> set df \<and> (\<forall>g \<in> set gids. g r \<noteq> None) \<and> iid r \<noteq> None}"
  unfolding set_id_pairs_def complete_rows_def set_drop_duplicates by auto

lemma adj_rel_add_edges_from:
  "adj_rel (add_edges_from es G) = adj_rel G \<union> set es \<union> (set es)\<inverse>"
  by (auto simp: adj_rel_def edges_add_edges_from)

lemma rtrancl_drop_loops:
  assumes "R' \<subseteq> R" "R \<subseteq> R' \<union> Id"
  shows "R\<^sup>* = R'\<^sup>*"
proof
  from assms(2) have "R\<^sup>* \<subseteq> (R'\<^sup>=)\<^sup>*" by (intro rtrancl_mono) auto
  then show "R\<^sup>* \<subseteq> R'\<^sup>*" by simp
next
  from assms(1) show "R'\<^sup>* \<subseteq> R\<^sup>*" by (rule rtrancl_mono)
qed

lemma connected_drop_self_loops:
  "connected (add_edges_from es G) u v \<longleftrightarrow>
   connected (add_edges_from (filter (\<lambda>e. fst e \<noteq> snd e) es) G) u v"
proof -
  have "(adj_rel (add_edges_from es G))\<^sup>* =
        (adj_rel (add_edges_from (filter (\<lambda>e. fst e \<noteq> snd e) es) G))\<^sup>*"
    by (rule rtrancl_drop_loops) (auto simp: adj_rel_add_edges_from)
  then show ?thesis by (simp add: connected_def)
qed

text \<open>
  C4.  The edge list of \<^verbatim>\<open>group_edges\<close>: rows missing a grouping cell or the identifier
  are discarded, duplicate (set id, identifier) pairs are discarded, and every pair of
  identifiers sharing a set id becomes an edge between the tagged identifiers, the pair of
  an identifier with itself included.  Adding these edges to a graph connects the same
  nodes as adding them without the self-loops.
\<close>

theorem group_edges_all_pairs:
  "group_edges p df gids iid = pairs_sharing_set_id p (set_id_pairs gids iid df) \<and>
   set (group_edges p df gids iid) =
     {((p, Val a), (p, Val b)) | a b k.
        (k, a) \<in> set (set_id_pairs gids iid df) \<and> (k, b) \<in> set (set_id_pairs gids iid df)} \<and>
   distinct (set_id_pairs gids iid df) \<and>
   set (set_id_pairs gids iid df) =
     {(map (\<lambda>g. the (g r)) gids, the (iid r)) | r.
        r \<in> set df \<and> (\<forall>g \<in> set gids. g r \<noteq> None) \<and> iid r \<noteq> None} \<and>
   (\<forall>k a. (k, a) \<in> set (set_id_pairs gids iid df) \<longrightarrow>
      ((p, Val a), (p, Val a)) \<in> set (group_edges p df gids iid)) \<and>
   (\<forall>G u v. connected (add_edges_from (group_edges p df gids iid) G) u v \<longleftrightarrow>
      connected (add_edges_from (filter (\<lambda>e. fst e \<noteq> snd e) (group_edges p df gids iid)) G) u v)"
proof (intro conjI allI impI)
  show "group_edges p df gids iid = pairs_sharing_set_id p (set_id_pairs gids iid df)"
    by (rule group_edges_eq)
  show "set (group_edges p df gids iid) =
     {((p, Val a), (p, Val b)) | a b k.
        (k, a) \<in> set (set_id_pairs gids iid df) \<and> (k, b) \<in> set (set_id_pairs gids iid df)}"
    by (simp only: group_edges_eq set_pairs_sharing_set_id)
  show "distinct (set_id_pairs gids iid df)"
    by (simp add: set_id_pairs_def distinct_drop_duplicates)
  show "set (set_id_pairs gids iid df) =
     {(map (\<lambda>g. the (g r)) gids, the (iid r)) | r.
        r \<in> set df \<and> (\<forall>g \<in> set gids. g r \<noteq> None) \<and> iid r \<noteq> None}"
    by (rule set_set_id_pairs)
  show "((p, Val a), (p, Val a)) \<in> set (group_edges p df gids iid)"
    if "(k, a) \<in> set (set_id_pairs gids iid df)" for k a
    using that by (auto simp only: group_edges_eq set_pairs_sharing_set_id)
  show "connected (add_edges_from (group_edges p df gids iid) G) u v \<longleftrightarrow>
      connected (add_edges_from (filter (\<lambda>e. fst e \<noteq> snd e) (group_edges p df gids iid)) G) u v"
    for G u v
    by (rule connected_drop_self_loops)
qed

theorem group_edges_all_pairs_witness:
  "ex_hd ! 0 \<in> set ex_hd \<and>
   hd_Set_ID (ex_hd ! 0) \<noteq> None \<and>
   hd_Subject_Unique_Identifier (ex_hd ! 0) \<noteq> None \<and>
   ([1], 100) \<in> set (set_id_pairs [hd_Set_ID] hd_Subject_Unique_Identifier ex_hd) \<and>
   ((''h'', Val 100), (''h'', Val 100)) \<in> set (group_edges ''h'' ex_hd [hd_Set_ID] hd_Subject_Unique_Identifier) \<and>
   group_edges ''h'' ex_hd [hd_Set_ID] hd_Subject_Unique_Identifier =
     [((''h'', Val 100), (''h'', Val 100)), ((''h'', Val 100), (''h'', Val 101)),
      ((''h'', Val 101), (''h'', Val 100)), ((''h'', Val 101), (''h'', Val 101))]"
proof -
  have r: "ex_hd ! 0 \<in> set ex_hd"
    and g: "\<forall>g \<in> set [hd_Set_ID]. g (ex_hd ! 0) \<noteq> None"
    and i: "hd_Subject_Unique_Identifier (ex_hd ! 0) \<noteq> None"
    and v: "map (\<lambda>g. the (g (ex_hd ! 0))) [hd_Set_ID] = [1]"
           "the (hd_Subject_Unique_Identifier (ex_hd ! 0)) = 100"
    by (simp_all add: ex_hd_def)
  note inst = group_edges_all_pairs [of "''h''" ex_hd "[hd_Set_ID]" hd_Subject_Unique_Identifier]
  from inst r g i have "(map (\<lambda>g. the (g (ex_hd ! 0))) [hd_Set_ID],
       the (hd_Subject_Unique_Identifier (ex_hd ! 0)))
      \<in> set (set_id_pairs [hd_Set_ID] hd_Subject_Unique_Identifier ex_hd)"
    by blast
  with v have p: "([1], 100) \<in> set (set_id_pairs [hd_Set_ID] hd_Subject_Unique_Identifier ex_hd)"
    by simp
  with inst have s: "((''h'', Val 100), (''h'', Val 100)) \<in>
      set (group_edges ''h'' ex_hd [hd_Set_ID] hd_Subject_Unique_Identifier)"
    by blast
  have e: "group_edges ''h'' ex_hd [hd_Set_ID] hd_Subject_Unique_Identifier =
     [((''h'', Val 100), (''h'', Val 100)), ((''h'', Val 100), (''h'', Val 101)),
      ((''h'', Val 101), (''h'', Val 100)), ((''h'', Val 101), (''h'', Val 101))]"
    by code_simp
  from g have "hd_Set_ID (ex_hd ! 0) \<noteq> None" by simp
  with r i p s e show ?thesis by blast
qed

lemma matching_edges_filter:
  "matching_edges csv =
     map (\<lambda>r. ((''c'', Val (the (m_clientid r))), (''h'', Val (the (m_Subject_Unique_Identifier r)))))
       (filter (\<lambda>r. m_clientid r \<noteq> None \<and> m_Subject_Unique_Identifier r \<noteq> None \<and>
                    None \<notin> set (m_other_columns r)) csv)"
proof -
  have cells: "(None \<notin> set ([m_clientid r, m_Subject_Unique_Identifier r] @ m_other_columns r)) =
        (m_clientid r \<noteq> None \<and> m_Subject_Unique_Identifier r \<noteq> None \<and>
           None \<notin> set (m_other_columns r))" for r
    by (auto simp: eq_commute [of None])
  show ?thesis unfolding matching_edges_def Let_def cells by (rule refl)
qed

text \<open>On a match file that has the two identifier columns only, exactly the rows with a
  missing identifier are discarded.\<close>

lemma matching_edges_two_columns:
  assumes "\<forall>r \<in> set csv. m_other_columns r = []"
  shows "matching_edges csv =
     map (\<lambda>r. ((''c'', Val (the (m_clientid r))), (''h'', Val (the (m_Subject_Unique_Identifier r)))))
       (filter (\<lambda>r. m_clientid r \<noteq> None \<and> m_Subject_Unique_Identifier r \<noteq> None) csv)"
proof -
  have "filter (\<lambda>r. m_clientid r \<noteq> None \<and> m_Subject_Unique_Identifier r \<noteq> None \<and>
                    None \<notin> set (m_other_columns r)) csv =
        filter (\<lambda>r. m_clientid r \<noteq> None \<and> m_Subject_Unique_Identifier r \<noteq> None) csv"
    using assms by (intro filter_cong) auto
  then show ?thesis by (simp add: matching_edges_filter)
qed

text \<open>
  C9.  A row of the match file with both identifiers is to become an edge.  The program
  calls \<^verbatim>\<open>dropna()\<close> on the whole file before it selects the two identifier columns
  (\<^verbatim>\<open>group_edges\<close> selects its columns first), so a row with both identifiers and a
  missing cell in a further column gives no edge: on the file with the one row
  (55, 101, missing) the edge list is empty, where the claim has the edge from
  \<^verbatim>\<open>('c', 55)\<close> to \<^verbatim>\<open>('h', 101)\<close>.
\<close>

theorem matching_edges_drops_complete_row:
  "m_clientid ex_match_row = Some 55 \<and>
   m_Subject_Unique_Identifier ex_match_row = Some 101 \<and>
   m_other_columns ex_match_row = [None] \<and>
   matching_edges [ex_match_row] = [] \<and>
   map (\<lambda>r. ((''c'', Val (the (m_clientid r))), (''h'', Val (the (m_Subject_Unique_Identifier r)))))
     (filter (\<lambda>r. m_clientid r \<noteq> None \<and> m_Subject_Unique_Identifier r \<noteq> None) [ex_match_row]) =
     [((''c'', Val 55), (''h'', Val 101))]"
  by (simp add: matching_edges_def ex_match_row_def)

section \<open>The left join of the labels\<close>

text \<open>On a record table whose rows all carry an identifier, merging a label table made by
  \<^verbatim>\<open>create_dataframe_from_grouped_ids\<close> keeps the rows, in number and order, and gives each
  row the label of its identifier, or a missing label when the identifier has none.\<close>

lemma merge_left_with_identifiers:
  assumes "create_dataframe_from_grouped_ids gs = Inr labels"
    and "\<forall>r \<in> set df. key r \<noteq> None"
  shows "map fst (merge_left df key labels) = df"
    and "map snd (merge_left df key labels) = map (\<lambda>r. map_of labels (Val (the (key r)))) df"
proof -
  from assms(1) have d: "distinct (map fst labels)"
    by (auto simp: create_dataframe_from_grouped_ids_def grouped_ids_dict_distinct)
  show "map fst (merge_left df key labels) = df"
    by (simp add: merge_left_present [OF d assms(2)] comp_def)
  show "map snd (merge_left df key labels) = map (\<lambda>r. map_of labels (Val (the (key r)))) df"
    by (simp add: merge_left_present [OF d assms(2)] comp_def)
qed

text \<open>
  C8.  The merge is to keep the row count of the record table.  A row without an
  identifier gives a node and a label entry of its own, and the join matches a missing key
  with every missing key of the label table: on a Connecting Point table of two cases
  without a client (as \<^verbatim>\<open>get_raw_cp\<close> builds them), the first merge returns four rows and
  the table returned by \<^verbatim>\<open>get_client_family_ids\<close> has eight rows, where the claim has
  two.
\<close>

theorem merge_repeats_rows_without_identifier:
  "length ex_cp_nan = 2 \<and>
   map snd (merge_left ex_cp_nan Clientid
     (grouped_ids_dict (map (get_ids_from_nodes ''c'')
        (connected_components (G_individuals [] ex_cp_nan [] [] []))))) =
     [Some 0, Some 1, Some 0, Some 1] \<and>
   map (\<lambda>r. (Caseid (fst (fst r)), snd (fst r), snd r))
     (snd (projr (get_client_family_ids [] ex_cp_nan [] [] []))) =
     [(Some 1, Some 0, Some 0), (Some 1, Some 0, Some 1),
      (Some 1, Some 1, Some 0), (Some 1, Some 1, Some 1),
      (Some 2, Some 0, Some 0), (Some 2, Some 0, Some 1),
      (Some 2, Some 1, Some 0), (Some 2, Some 1, Some 1)]"
  by code_simp

section \<open>The nodes of the identity graph\<close>

















section \<open>Family characteristics\<close>










section \<open>Child and adult status\<close>

lemma lt_na_None: "lt_na None n = False"
  by (simp add: lt_na_def)

lemma get_hmis_age_entered_None:
  "Program_Start_Date r = None \<or> DOB r = None \<Longrightarrow> get_hmis_age_entered rd r = None"
  by (auto simp: get_hmis_age_entered_def Let_def)

text \<open>
  C10.  In both tables, on every row, \<^verbatim>\<open>'Adult?'\<close> is the negation of \<^verbatim>\<open>'Child?'\<close>.
  A row whose age cannot be determined (no DOB or no program start date in HMIS, no age in
  Connecting Point) has \<^verbatim>\<open>'Child?'\<close> false and \<^verbatim>\<open>'Adult?'\<close> true.
\<close>

theorem child_status_adult_is_not_child:
  "(\<forall>s \<in> set (hmis_child_status rd hmis).
      Adult s = (\<not> Child s) \<and>
      (Program_Start_Date (fst (row s)) = None \<or> DOB (fst (row s)) = None
         \<longrightarrow> \<not> Child s \<and> Adult s)) \<and>
   (\<forall>s \<in> set (cp_child_status cp).
      Adult s = (\<not> Child s) \<and> (age (row s) = None \<longrightarrow> \<not> Child s \<and> Adult s))"
  by (auto simp: hmis_child_status_def cp_child_status_def Let_def lt_na_None
        get_hmis_age_entered_None)

theorem child_status_adult_is_not_child_witness:
  "(let s = hd (hmis_child_status (\<lambda>s d. (s - d) div 365)
               [\<lparr>Subject_Unique_Identifier = Some 7, Family_Site_Identifier = None,
                 Program_Start_Date = Some 16000, DOB = None\<rparr>])
    in s \<in> set (hmis_child_status (\<lambda>s d. (s - d) div 365)
               [\<lparr>Subject_Unique_Identifier = Some 7, Family_Site_Identifier = None,
                 Program_Start_Date = Some 16000, DOB = None\<rparr>]) \<and>
       DOB (fst (row s)) = None \<and> \<not> Child s \<and> Adult s) \<and>
   (let t = hd (cp_child_status [\<lparr>Clientid = Some 5, Caseid = Some 1, age = Some 9\<rparr>])
    in t \<in> set (cp_child_status [\<lparr>Clientid = Some 5, Caseid = Some 1, age = Some 9\<rparr>]) \<and>
       age (row t) \<noteq> None \<and> Child t \<and> \<not> Adult t)"
  using child_status_adult_is_not_child
    [of "\<lambda>s d. (s - d) div 365"
        "[\<lparr>Subject_Unique_Identifier = Some 7, Family_Site_Identifier = None,
           Program_Start_Date = Some 16000, DOB = None\<rparr>]"
        "[\<lparr>Clientid = Some 5, Caseid = Some 1, age = Some 9\<rparr>]"]
  by (simp add: hmis_child_status_def cp_child_status_def Let_def lt_na_def
        get_hmis_age_entered_def ADULT_AGE_def)

end
